theory Spec2Isabelle
  imports Main
begin

section \<open>JavaScript strings and numbers used by SequentialGenerator\<close>

text \<open>
  A JavaScript string is modelled as a \<open>string\<close> (one \<open>char\<close> per code unit), an index or a
  length as an \<open>int\<close> (\<open>lastIndexOf\<close> answers \<open>-1\<close>, and \<open>code.length - sequentialLength\<close>
  may be negative).  A JavaScript number that may be \<open>NaN\<close> is an \<open>int option\<close>, \<open>None\<close>
  standing for \<open>NaN\<close>.

  JavaScript numbers are doubles.  On the safe integers, from \<open>-(2^53 - 1)\<close> to \<open>2^53 - 1\<close>,
  a double is the integer itself: \<open>String\<close> renders its decimal digits, \<open>parseInt\<close> reads
  them back and \<open>+ 1\<close> is exact.  Outside this range the engine rounds to 53 bits and renders
  shortest round-trip digits or exponent notation; this is floating point, which the
  definitions below leave unspecified (\<open>undefined\<close>) instead of computing a value the engine
  would not give.  Every statement about a rendered or parsed number therefore carries the
  hypothesis that the number is a safe integer.  The length of a string is not bounded here.
\<close>

definition MAX_SAFE_INTEGER :: int where
  "MAX_SAFE_INTEGER = 9007199254740991"

definition isSafeInteger :: "int \<Rightarrow> bool" where
  "isSafeInteger n = (- MAX_SAFE_INTEGER \<le> n \<and> n \<le> MAX_SAFE_INTEGER)"

text \<open>
  The number the engine holds for the integer result \<open>v\<close> of an addition, and for the
  integer \<open>v\<close> that \<open>parseInt\<close> has read (which can also be \<open>Infinity\<close>).
\<close>

definition Number_int :: "int \<Rightarrow> int" where
  "Number_int v = (if isSafeInteger v then v else undefined v)"

definition Number_value :: "int \<Rightarrow> int option" where
  "Number_value v = (if isSafeInteger v then Some v else undefined v)"

abbreviation slen :: "string \<Rightarrow> int" where
  "slen s \<equiv> int (length s)"

definition digit_char :: "nat \<Rightarrow> char" where
  "digit_char d = char_of (48 + d)"

definition isDigit :: "char \<Rightarrow> bool" where
  "isDigit c = (48 \<le> (of_char c :: nat) \<and> (of_char c :: nat) \<le> 57)"

definition digit_val :: "char \<Rightarrow> nat" where
  "digit_val c = (of_char c :: nat) - 48"

text \<open>The decimal digits of a natural number, most significant first.\<close>

fun nat_to_string :: "nat \<Rightarrow> string" where
  "nat_to_string n =
     (if n < 10 then [digit_char n] else nat_to_string (n div 10) @ [digit_char (n mod 10)])"

declare nat_to_string.simps [simp del]

text \<open>\<open>String(n)\<close> for a safe integer, and for \<open>NaN\<close>.\<close>

definition js_String :: "int option \<Rightarrow> string" where
  "js_String x =
     (case x of
        None \<Rightarrow> ''NaN''
      | Some n \<Rightarrow>
          if isSafeInteger n
          then (if n < 0 then CHR ''-'' # nat_to_string (nat (- n)) else nat_to_string (nat n))
          else undefined n)"

text \<open>\<open>s.padStart(targetLength, '0')\<close>: never truncates.\<close>

definition padStart :: "string \<Rightarrow> int \<Rightarrow> string" where
  "padStart s targetLength =
     (if targetLength \<le> slen s then s
      else replicate (nat (targetLength - slen s)) (CHR ''0'') @ s)"

text \<open>\<open>s.substring(a, b)\<close>: both indices are clamped to \<open>[0, length]\<close> and swapped if needed.\<close>

definition clamp_index :: "int \<Rightarrow> nat \<Rightarrow> nat" where
  "clamp_index i n = (if i < 0 then 0 else if int n < i then n else nat i)"

definition substring :: "string \<Rightarrow> int \<Rightarrow> int \<Rightarrow> string" where
  "substring s a b =
     (let n = length s; x = clamp_index a n; y = clamp_index b n;
          lo = min x y; hi = max x y
      in take (hi - lo) (drop lo s))"

text \<open>\<open>s.substring(a)\<close>.\<close>

definition substring_from :: "string \<Rightarrow> int \<Rightarrow> string" where
  "substring_from s a = substring s a (slen s)"

definition startsWith :: "string \<Rightarrow> string \<Rightarrow> bool" where
  "startsWith s p = (take (length p) s = p)"

text \<open>
  \<open>s.lastIndexOf(t)\<close>: the search runs from the last position where \<open>t\<close> still fits down to
  position 0; the answer is \<open>-1\<close> when \<open>t\<close> does not occur.
\<close>

definition occurs_at :: "string \<Rightarrow> string \<Rightarrow> nat \<Rightarrow> bool" where
  "occurs_at s t k = (k + length t \<le> length s \<and> take (length t) (drop k s) = t)"

fun lastIndexOf_from :: "string \<Rightarrow> string \<Rightarrow> nat \<Rightarrow> int" where
  "lastIndexOf_from s t 0 = (if occurs_at s t 0 then 0 else - 1)"
| "lastIndexOf_from s t (Suc k) =
     (if occurs_at s t (Suc k) then int (Suc k) else lastIndexOf_from s t k)"

definition lastIndexOf :: "string \<Rightarrow> string \<Rightarrow> int" where
  "lastIndexOf s t =
     (if length s < length t then - 1 else lastIndexOf_from s t (length s - length t))"

text \<open>\<open>/^\d+$/.test(s)\<close>: one or more characters, all of them decimal digits.\<close>

definition test_digits :: "string \<Rightarrow> bool" where
  "test_digits s = (s \<noteq> [] \<and> list_all isDigit s)"

text \<open>
  \<open>parseInt(s, 10)\<close>: leading white space is skipped, one sign is read, then the longest run
  of decimal digits; no digit at all gives \<open>NaN\<close>.  The result is the number the engine
  holds for the integer read.
\<close>

definition isWhiteSpace :: "char \<Rightarrow> bool" where
  "isWhiteSpace c = ((of_char c :: nat) \<in> {9, 10, 11, 12, 13, 32, 160})"

definition digits_value :: "string \<Rightarrow> nat" where
  "digits_value z = foldl (\<lambda>acc c. 10 * acc + digit_val c) 0 z"

definition parseInt :: "string \<Rightarrow> int option" where
  "parseInt s =
     (let t = dropWhile isWhiteSpace s;
          sgn = (case t of [] \<Rightarrow> 1 | c # r \<Rightarrow> if c = CHR ''-'' then - 1 else (1::int));
          u = (case t of [] \<Rightarrow> [] | c # r \<Rightarrow> if c = CHR ''-'' \<or> c = CHR ''+'' then r else t);
          z = takeWhile isDigit u
      in if z = [] then None else Number_value (sgn * int (digits_value z)))"

section \<open>The generator\<close>

text \<open>
  The date backend (dayjs) is an external library.  A \<open>clock\<close> is what it answers at the
  instant of a call: \<open>now tz fmt\<close> is \<open>dayjs().tz(tz).format(fmt)\<close>.  One call of a public
  method sees one instant.
\<close>

type_synonym clock = "string \<Rightarrow> string \<Rightarrow> string"

record SequentialGeneratorConfig =
  config_prefix :: "string option"
  config_dateFormat :: "string option"
  config_sequentialLength :: "int option"
  config_timeZone :: "string option"
  config_separator :: "string option"

record SequentialGenerator =
  prefix :: string
  dateFormat :: string
  sequentialLength :: int
  timeZone :: string
  separator :: string
  lastGeneratedDate :: "string option"
  currentSequence :: int

datatype error = Error string

record parsed =
  parsed_prefix :: string
  parsed_date :: string
  parsed_sequence :: "int option"

text \<open>
  The constructor: \<open>timeZone\<close> is taken with \<open>||\<close> (an empty string is falsy), the other
  fields are compared with \<open>undefined\<close>.
\<close>

definition constructor :: "SequentialGeneratorConfig \<Rightarrow> SequentialGenerator" where
  "constructor config =
     \<lparr> prefix = (case config_prefix config of Some p \<Rightarrow> p | None \<Rightarrow> ''''),
       dateFormat = (case config_dateFormat config of Some f \<Rightarrow> f | None \<Rightarrow> ''YYYYMMDD''),
       sequentialLength = (case config_sequentialLength config of Some n \<Rightarrow> n | None \<Rightarrow> 4),
       timeZone = (case config_timeZone config of
                     Some z \<Rightarrow> if z \<noteq> [] then z else ''UTC''
                   | None \<Rightarrow> ''UTC''),
       separator = (case config_separator config of Some s \<Rightarrow> s | None \<Rightarrow> ''''),
       lastGeneratedDate = None,
       currentSequence = 0 \<rparr>"

definition reset :: "SequentialGenerator \<Rightarrow> SequentialGenerator" where
  "reset g = g\<lparr>currentSequence := 0, lastGeneratedDate := None\<rparr>"

definition getDateFormatLength :: "clock \<Rightarrow> SequentialGenerator \<Rightarrow> int" where
  "getDateFormatLength now g = slen (now (timeZone g) (dateFormat g))"

definition getDateKey :: "clock \<Rightarrow> SequentialGenerator \<Rightarrow> string" where
  "getDateKey now g = now (timeZone g) (dateFormat g)"

text \<open>
  \<open>generateFromSequence\<close> writes \<open>sequentialLength\<close>, so it returns the instance with the
  code.  \<open>dateKey || this.getDateKey()\<close> takes the clock for an absent and for an empty key.
\<close>

function generateFromSequence ::
  "clock \<Rightarrow> SequentialGenerator \<Rightarrow> int option \<Rightarrow> string option \<Rightarrow> string \<times> SequentialGenerator"
where
  "generateFromSequence now g sequence dateKey =
     (let currentKey = (case dateKey of
                          Some k \<Rightarrow> if k \<noteq> [] then k else getDateKey now g
                        | None \<Rightarrow> getDateKey now g);
          sequenceString = padStart (js_String sequence) (sequentialLength g)
      in if slen sequenceString > sequentialLength g
         then generateFromSequence now (g\<lparr>sequentialLength := sequentialLength g + 1\<rparr>)
                (Some 1) (Some currentKey)
         else (prefix g @ separator g @ currentKey @ separator g @ sequenceString, g))"
  by pat_completeness auto

termination generateFromSequence
proof (relation "measure (\<lambda>(now, g, sequence, dateKey).
                   nat (1 - sequentialLength g) + (if sequence = Some 1 then 0 else 1))",
       goal_cases)
  case 1
  show ?case by simp
next
  case (2 now g sequence dateKey currentKey sequenceString)
  have one: "slen (js_String (Some 1)) = 1"
    by (simp add: js_String_def isSafeInteger_def MAX_SAFE_INTEGER_def nat_to_string.simps)
  have len: "slen (padStart (js_String sequence) (sequentialLength g)) =
             max (slen (js_String sequence)) (sequentialLength g)"
    by (simp add: padStart_def)
  from 2 have over: "sequentialLength g < slen (js_String sequence)"
    by (simp add: len)
  show ?case
  proof (cases "sequence = Some 1")
    case True
    with over have "sequentialLength g < 1"
      by (simp add: one)
    with True show ?thesis by simp
  next
    case False
    then show ?thesis by simp
  qed
qed

declare generateFromSequence.simps [simp del]

text \<open>\<open>generate\<close>: the stateful path.  The overflow branch calls \<open>generateFromSequence(1, currentDate)\<close>.\<close>

definition generate :: "clock \<Rightarrow> SequentialGenerator \<Rightarrow> string \<times> SequentialGenerator" where
  "generate now g =
     (let currentDate = now (timeZone g) (dateFormat g);
          g1 = g\<lparr>currentSequence :=
                   (if Some currentDate = lastGeneratedDate g
                    then Number_int (currentSequence g + 1) else 1)\<rparr>;
          g2 = g1\<lparr>lastGeneratedDate := Some currentDate\<rparr>;
          sequenceString = padStart (js_String (Some (currentSequence g2))) (sequentialLength g2)
      in if slen sequenceString > sequentialLength g2
         then generateFromSequence now (g2\<lparr>sequentialLength := sequentialLength g2 + 1\<rparr>)
                (Some 1) (Some currentDate)
         else (prefix g2 @ separator g2 @ currentDate @ separator g2 @ sequenceString, g2))"

definition extractDate :: "clock \<Rightarrow> SequentialGenerator \<Rightarrow> string \<Rightarrow> string" where
  "extractDate now g code =
     (let startIndex = slen (prefix g) + slen (separator g);
          lastSeparatorIndex = lastIndexOf code (separator g)
      in if separator g \<noteq> [] \<and> lastSeparatorIndex > startIndex
         then substring code startIndex lastSeparatorIndex
         else (let dateLength = getDateFormatLength now g
               in substring code startIndex (startIndex + dateLength)))"

definition extractSequence :: "clock \<Rightarrow> SequentialGenerator \<Rightarrow> string \<Rightarrow> int option" where
  "extractSequence now g code =
     (let startIndex =
            (if separator g \<noteq> [] then
               (let lastSeparatorIndex = lastIndexOf code (separator g)
                in if lastSeparatorIndex \<noteq> - 1 then lastSeparatorIndex + slen (separator g)
                   else slen code - sequentialLength g)
             else (let dateLength = getDateFormatLength now g
                   in slen (prefix g) + slen (separator g) + dateLength + slen (separator g)));
          sequenceString = substring_from code startIndex
      in parseInt sequenceString)"

definition validate :: "clock \<Rightarrow> SequentialGenerator \<Rightarrow> string \<Rightarrow> bool" where
  "validate now g code =
     (if \<not> startsWith code (prefix g) then False
      else let dateLength = getDateFormatLength now g in
        if slen code < slen (prefix g) + slen (separator g) * 2 + dateLength + 1 then False
        else if separator g \<noteq> [] then
          (let lastSeparatorIndex = lastIndexOf code (separator g)
           in if lastSeparatorIndex = - 1 then False
              else test_digits (substring_from code (lastSeparatorIndex + slen (separator g))))
        else
          (let startIndex = slen (prefix g) + slen (separator g) + dateLength + slen (separator g)
           in test_digits (substring_from code startIndex)))"

text \<open>
  \<open>parse\<close> and \<open>increment\<close> throw \<open>Error\<close> on a code that \<open>validate\<close> rejects; the instance
  outlives the exception, so \<open>increment\<close> returns it in both cases.
\<close>

definition parse :: "clock \<Rightarrow> SequentialGenerator \<Rightarrow> string \<Rightarrow> error + parsed" where
  "parse now g code =
     (if \<not> validate now g code then Inl (Error ''Invalid code format provided to parse'')
      else Inr \<lparr> parsed_prefix = prefix g,
                 parsed_date = extractDate now g code,
                 parsed_sequence = extractSequence now g code \<rparr>)"

text \<open>\<open>lastSequence + 1\<close> on a number that may be \<open>NaN\<close>.\<close>

definition add_one :: "int option \<Rightarrow> int option" where
  "add_one x = (case x of None \<Rightarrow> None | Some n \<Rightarrow> Number_value (n + 1))"

text \<open>The local \<open>lastSeqLength\<close> of \<open>increment\<close>: the width of the embedded sequence segment.\<close>

definition lastSeqLength :: "clock \<Rightarrow> SequentialGenerator \<Rightarrow> string \<Rightarrow> int" where
  "lastSeqLength now g lastCode =
     (if separator g \<noteq> [] then
        (let lastSeparatorIndex = lastIndexOf lastCode (separator g)
         in slen lastCode - (lastSeparatorIndex + slen (separator g)))
      else
        (let dateLength = getDateFormatLength now g
         in slen lastCode - (slen (prefix g) + dateLength)))"

definition increment ::
  "clock \<Rightarrow> SequentialGenerator \<Rightarrow> string \<Rightarrow> (error + string) \<times> SequentialGenerator"
where
  "increment now g lastCode =
     (if \<not> validate now g lastCode
      then (Inl (Error ''Invalid code format provided to increment''), g)
      else
        let currentDate = getDateKey now g;
            lastCodeDate = extractDate now g lastCode
        in if lastCodeDate = currentDate then
             (let lastSequence = extractSequence now g lastCode;
                  g1 = (if lastSeqLength now g lastCode > sequentialLength g
                        then g\<lparr>sequentialLength := lastSeqLength now g lastCode\<rparr> else g);
                  nextSequence = add_one lastSequence;
                  (code, g2) = generateFromSequence now g1 nextSequence (Some currentDate)
              in (Inr code, g2))
           else
             (let (code, g2) = generateFromSequence now g (Some 1) (Some currentDate)
              in (Inr code, g2)))"

text \<open>
  The public operations as one step on the instance under a clock; the operations that
  assign no field leave the instance as it is.
\<close>

datatype operation =
    Generate
  | GenerateFromSequence "int option" "string option"
  | Increment string
  | Validate string
  | Parse string
  | ExtractDate string
  | ExtractSequence string
  | GetDateKey
  | Reset

fun step :: "clock \<Rightarrow> operation \<Rightarrow> SequentialGenerator \<Rightarrow> SequentialGenerator" where
  "step now Generate g = snd (generate now g)"
| "step now (GenerateFromSequence sequence dateKey) g =
     snd (generateFromSequence now g sequence dateKey)"
| "step now (Increment lastCode) g = snd (increment now g lastCode)"
| "step now (Validate code) g = g"
| "step now (Parse code) g = g"
| "step now (ExtractDate code) g = g"
| "step now (ExtractSequence code) g = g"
| "step now GetDateKey g = g"
| "step now Reset g = reset g"

text \<open>A run: each operation with the clock of its instant.\<close>

fun run :: "(clock \<times> operation) list \<Rightarrow> SequentialGenerator \<Rightarrow> SequentialGenerator" where
  "run [] g = g"
| "run ((now, op) # rest) g = run rest (step now op g)"

text \<open>
  The loop of the test suite, \<open>for (i = 0; i < n; i++) gen.generate()\<close>, under one clock:
  the codes in the order they are issued, and the instance afterwards.
\<close>

fun generate_times ::
  "clock \<Rightarrow> nat \<Rightarrow> SequentialGenerator \<Rightarrow> string list \<times> SequentialGenerator"
where
  "generate_times now 0 g = ([], g)"
| "generate_times now (Suc n) g =
     (let (code, g1) = generate now g; (codes, g2) = generate_times now n g1
      in (code # codes, g2))"

text \<open>The clock of the test suite: 2023-01-01T00:00:00Z, rendered with \<open>YYYYMMDD\<close>.\<close>

definition clock_20230101 :: clock where
  "clock_20230101 tz fmt = ''20230101''"

text \<open>Configurations of the test suite: \<open>{}\<close>, one with a single sequence digit, and the
  invoice series with a separator.\<close>

definition config_default :: SequentialGeneratorConfig where
  "config_default =
     \<lparr> config_prefix = None, config_dateFormat = None, config_sequentialLength = None,
       config_timeZone = None, config_separator = None \<rparr>"

definition config_width1 :: SequentialGeneratorConfig where
  "config_width1 =
     \<lparr> config_prefix = None, config_dateFormat = None, config_sequentialLength = Some 1,
       config_timeZone = Some ''UTC'', config_separator = None \<rparr>"

definition config_INV_dash :: SequentialGeneratorConfig where
  "config_INV_dash =
     \<lparr> config_prefix = Some ''INV'', config_dateFormat = None, config_sequentialLength = Some 4,
       config_timeZone = Some ''UTC'', config_separator = Some ''-'' \<rparr>"

definition config_INV_zero :: SequentialGeneratorConfig where
  "config_INV_zero =
     \<lparr> config_prefix = Some ''INV'', config_dateFormat = None, config_sequentialLength = Some 4,
       config_timeZone = Some ''UTC'', config_separator = Some ''0'' \<rparr>"

section \<open>The segment-recovery rule as the specification words it\<close>

text \<open>
  The specification's reading of the sequence segment that \<open>validate\<close> tests: with a
  separator, the suffix after its last occurrence when that occurrence lies strictly after
  the prefix and first separator, and otherwise the suffix after the date segment of pattern
  length and the second separator; without a separator, the suffix after the date segment of
  pattern length.
\<close>

definition spec_sequenceSegment :: "clock \<Rightarrow> SequentialGenerator \<Rightarrow> string \<Rightarrow> string" where
  "spec_sequenceSegment now g code =
     (let startIndex = slen (prefix g) + slen (separator g);
          dateLength = getDateFormatLength now g
      in if separator g \<noteq> [] then
           (if lastIndexOf code (separator g) > startIndex
            then substring_from code (lastIndexOf code (separator g) + slen (separator g))
            else substring_from code (startIndex + dateLength + slen (separator g)))
         else substring_from code (startIndex + dateLength))"

definition spec_validate :: "clock \<Rightarrow> SequentialGenerator \<Rightarrow> string \<Rightarrow> bool" where
  "spec_validate now g code =
     (startsWith code (prefix g) \<and>
      slen (prefix g) + 2 * slen (separator g) + getDateFormatLength now g + 1 \<le> slen code \<and>
      test_digits (spec_sequenceSegment now g code))"

section \<open>Facts about the string primitives\<close>

lemma nat_to_string_nonempty: "nat_to_string n \<noteq> []"
  by (subst nat_to_string.simps) simp

lemma slen_padStart: "slen (padStart s w) = max (slen s) w"
  by (simp add: padStart_def)

lemma digit_char_numerals:
  "digit_char 0 = CHR ''0''" "digit_char 1 = CHR ''1''" "digit_char 2 = CHR ''2''"
  "digit_char 3 = CHR ''3''" "digit_char 4 = CHR ''4''" "digit_char 5 = CHR ''5''"
  "digit_char 6 = CHR ''6''" "digit_char 7 = CHR ''7''" "digit_char 8 = CHR ''8''"
  "digit_char 9 = CHR ''9''" "digit_char (Suc 0) = CHR ''1''"
  by code_simp+

lemmas safe_integer_eval = isSafeInteger_def MAX_SAFE_INTEGER_def Number_int_def
  Number_value_def

lemma js_String_1: "js_String (Some 1) = ''1''"
  by (simp add: js_String_def safe_integer_eval nat_to_string.simps digit_char_numerals)

lemmas js_String_eval = js_String_def safe_integer_eval nat_to_string.simps
  digit_char_numerals

section \<open>generateFromSequence: the two branches, and what it leaves alone\<close>

lemma generateFromSequence_fits:
  assumes "slen (js_String sequence) \<le> sequentialLength g"
  shows "generateFromSequence now g sequence dateKey =
           (prefix g @ separator g @
              (case dateKey of None \<Rightarrow> getDateKey now g
               | Some k \<Rightarrow> if k \<noteq> [] then k else getDateKey now g) @
              separator g @ padStart (js_String sequence) (sequentialLength g), g)"
  using assms by (subst generateFromSequence.simps) (simp add: slen_padStart)

lemma generateFromSequence_overflow:
  assumes "sequentialLength g < slen (js_String sequence)"
  shows "generateFromSequence now g sequence dateKey =
           generateFromSequence now (g\<lparr>sequentialLength := sequentialLength g + 1\<rparr>) (Some 1)
             (Some (case dateKey of None \<Rightarrow> getDateKey now g
                    | Some k \<Rightarrow> if k \<noteq> [] then k else getDateKey now g))"
  using assms by (subst generateFromSequence.simps) (simp add: slen_padStart)

lemma generateFromSequence_fields:
  "prefix (snd (generateFromSequence now g sequence dateKey)) = prefix g \<and>
   dateFormat (snd (generateFromSequence now g sequence dateKey)) = dateFormat g \<and>
   timeZone (snd (generateFromSequence now g sequence dateKey)) = timeZone g \<and>
   separator (snd (generateFromSequence now g sequence dateKey)) = separator g \<and>
   lastGeneratedDate (snd (generateFromSequence now g sequence dateKey)) = lastGeneratedDate g \<and>
   currentSequence (snd (generateFromSequence now g sequence dateKey)) = currentSequence g \<and>
   sequentialLength g \<le> sequentialLength (snd (generateFromSequence now g sequence dateKey))"
proof (induction now g sequence dateKey rule: generateFromSequence.induct)
  case (1 now g sequence dateKey)
  note unf = generateFromSequence.simps [of now g sequence dateKey]
  show ?case
  proof (cases "sequentialLength g < slen (padStart (js_String sequence) (sequentialLength g))")
    case True
    then show ?thesis
      using "1.IH" [OF refl refl True] by (simp add: unf)
  next
    case False
    then show ?thesis
      by (simp add: unf)
  qed
qed

lemma generateFromSequence_code_indep:
  "prefix g' = prefix g \<Longrightarrow> dateFormat g' = dateFormat g \<Longrightarrow>
   sequentialLength g' = sequentialLength g \<Longrightarrow> timeZone g' = timeZone g \<Longrightarrow>
   separator g' = separator g \<Longrightarrow>
   fst (generateFromSequence now g' sequence dateKey) =
   fst (generateFromSequence now g sequence dateKey)"
proof (induction now g sequence dateKey arbitrary: g' rule: generateFromSequence.induct)
  case (1 now g sequence dateKey)
  let ?key = "\<lambda>h. case dateKey of None \<Rightarrow> getDateKey now h
                     | Some k \<Rightarrow> if k \<noteq> [] then k else getDateKey now h"
  have key: "?key g' = ?key g"
    using "1.prems" by (simp add: getDateKey_def split: option.split)
  note unf = generateFromSequence.simps [of now g sequence dateKey]
    generateFromSequence.simps [of now g' sequence dateKey]
  show ?case
  proof (cases "sequentialLength g < slen (padStart (js_String sequence) (sequentialLength g))")
    case True
    have "fst (generateFromSequence now (g'\<lparr>sequentialLength := sequentialLength g' + 1\<rparr>)
                 (Some 1) (Some (?key g))) =
          fst (generateFromSequence now (g\<lparr>sequentialLength := sequentialLength g + 1\<rparr>)
                 (Some 1) (Some (?key g)))"
      using "1.prems" by (intro "1.IH" [OF refl refl True]) simp_all
    then show ?thesis
      using True "1.prems" by (simp add: unf key)
  next
    case False
    then show ?thesis
      using "1.prems" by (simp add: unf key)
  qed
qed

lemma generate_sequentialLength_mono:
  "sequentialLength g \<le> sequentialLength (snd (generate now g))"
proof -
  let ?g2 = "g\<lparr>currentSequence :=
                 (if Some (now (timeZone g) (dateFormat g)) = lastGeneratedDate g
                  then Number_int (currentSequence g + 1) else 1),
               lastGeneratedDate := Some (now (timeZone g) (dateFormat g)),
               sequentialLength := sequentialLength g + 1\<rparr>"
  have "sequentialLength ?g2 \<le>
        sequentialLength (snd (generateFromSequence now ?g2 (Some 1)
                                 (Some (now (timeZone g) (dateFormat g)))))"
    using generateFromSequence_fields by blast
  then show ?thesis
    by (simp add: generate_def Let_def)
qed

lemma increment_sequentialLength_mono:
  "sequentialLength g \<le> sequentialLength (snd (increment now g lastCode))"
proof -
  have a: "sequentialLength h \<le> sequentialLength (snd (generateFromSequence now h s d))"
    for h s d
    using generateFromSequence_fields by blast
  have b: "sequentialLength g \<le>
           sequentialLength (snd (generateFromSequence now (g\<lparr>sequentialLength := w\<rparr>) s d))"
    if "sequentialLength g < w" for w s d
    using a [of "g\<lparr>sequentialLength := w\<rparr>" s d] that by simp
  show ?thesis
    by (simp add: increment_def Let_def split_beta a b)
qed

lemma step_sequentialLength_mono:
  "sequentialLength g \<le> sequentialLength (step now op g)"
proof (cases op)
  case Generate
  then show ?thesis by (simp add: generate_sequentialLength_mono)
next
  case (GenerateFromSequence sequence dateKey)
  then show ?thesis using generateFromSequence_fields by simp
next
  case (Increment lastCode)
  then show ?thesis by (simp add: increment_sequentialLength_mono)
next
  case Reset
  then show ?thesis by (simp add: reset_def)
qed simp_all

lemma run_sequentialLength_mono:
  "sequentialLength g \<le> sequentialLength (run ops g)"
proof (induction ops arbitrary: g)
  case Nil
  show ?case by simp
next
  case (Cons a ops)
  obtain now op where a: "a = (now, op)" by (cases a)
  have "sequentialLength g \<le> sequentialLength (step now op g)"
    by (rule step_sequentialLength_mono)
  also have "\<dots> \<le> sequentialLength (run ops (step now op g))"
    by (rule Cons.IH)
  finally show ?case by (simp add: a)
qed

section \<open>Errors, the frame of generateFromSequence, the width ratchet\<close>

text \<open>
  What \<open>generate\<close> stores: the working sequence, which is the previous \<open>currentSequence\<close>
  plus 1 when the date key of this instant equals \<open>lastGeneratedDate\<close> and 1 otherwise, and
  the date key of this instant.
\<close>

lemma generate_stores_working_sequence:
  "currentSequence (snd (generate now g)) =
     (if lastGeneratedDate g = Some (getDateKey now g)
      then Number_int (currentSequence g + 1) else 1) \<and>
   lastGeneratedDate (snd (generate now g)) = Some (getDateKey now g)"
proof -
  let ?d = "now (timeZone g) (dateFormat g)"
  let ?w = "if Some ?d = lastGeneratedDate g then Number_int (currentSequence g + 1) else 1"
  let ?g2 = "g\<lparr>currentSequence := ?w, lastGeneratedDate := Some ?d\<rparr>"
  let ?g3 = "?g2\<lparr>sequentialLength := sequentialLength g + 1\<rparr>"
  have f: "currentSequence (snd (generateFromSequence now ?g3 (Some 1) (Some ?d))) = ?w \<and>
           lastGeneratedDate (snd (generateFromSequence now ?g3 (Some 1) (Some ?d))) = Some ?d"
    using generateFromSequence_fields [of now ?g3 "Some 1" "Some ?d"] by simp
  show ?thesis
  proof (cases "sequentialLength g <
                slen (padStart (js_String (Some ?w)) (sequentialLength g))")
    case True
    then show ?thesis
      using f by (simp add: generate_def Let_def getDateKey_def eq_commute)
  next
    case False
    then show ?thesis
      by (simp add: generate_def Let_def getDateKey_def eq_commute)
  qed
qed

text \<open>
  C7.  \<open>increment\<close> throws exactly when \<open>validate\<close> rejects the code, and so does
  \<open>parse\<close>; the error of \<open>increment\<close> is the invalid-format error, and a rejected
  \<open>increment\<close> or \<open>parse\<close> leaves every field of the instance as it was.
\<close>

theorem C7_increment_fails_iff_invalid:
  "(isl (fst (increment now g code)) \<longleftrightarrow> \<not> validate now g code) \<and>
   (isl (parse now g code) \<longleftrightarrow> \<not> validate now g code) \<and>
   (\<not> validate now g code \<longrightarrow>
      fst (increment now g code) = Inl (Error ''Invalid code format provided to increment'') \<and>
      parse now g code = Inl (Error ''Invalid code format provided to parse'') \<and>
      step now (Increment code) g = g \<and> step now (Parse code) g = g)"
  by (simp add: increment_def parse_def Let_def split_beta)

text \<open>
  C8.  \<open>generateFromSequence\<close> leaves \<open>lastGeneratedDate\<close> and \<open>currentSequence\<close> as they
  were, and the code it returns is the same whatever these two fields hold.
\<close>

theorem C8_generateFromSequence_frame:
  "lastGeneratedDate (snd (generateFromSequence now g sequence dateKey)) = lastGeneratedDate g \<and>
   currentSequence (snd (generateFromSequence now g sequence dateKey)) = currentSequence g \<and>
   fst (generateFromSequence now (g\<lparr>lastGeneratedDate := l, currentSequence := c\<rparr>)
          sequence dateKey) =
   fst (generateFromSequence now g sequence dateKey)"
proof -
  have "fst (generateFromSequence now (g\<lparr>lastGeneratedDate := l, currentSequence := c\<rparr>)
               sequence dateKey) =
        fst (generateFromSequence now g sequence dateKey)"
    by (rule generateFromSequence_code_indep) simp_all
  then show ?thesis
    using generateFromSequence_fields [of now g sequence dateKey] by simp
qed

text \<open>
  C9.  No public operation decreases \<open>sequentialLength\<close>, in one step or over any run of
  operations under any clocks; \<open>reset\<close> puts \<open>lastGeneratedDate\<close> and \<open>currentSequence\<close>
  back to the values the constructor gives them and leaves \<open>sequentialLength\<close>, also a
  grown one, as it is.
\<close>

theorem C9_sequentialLength_ratchet:
  "sequentialLength g \<le> sequentialLength (step now op g) \<and>
   sequentialLength g \<le> sequentialLength (run ops g) \<and>
   lastGeneratedDate (reset g) = lastGeneratedDate (constructor config) \<and>
   currentSequence (reset g) = currentSequence (constructor config) \<and>
   lastGeneratedDate (reset g) = None \<and> currentSequence (reset g) = 0 \<and>
   sequentialLength (reset g) = sequentialLength g"
  by (simp add: step_sequentialLength_mono run_sequentialLength_mono reset_def constructor_def)

text \<open>
  C10.  The constructor gives an empty \<open>timeZone\<close> the same instance as an absent one, with
  time zone UTC; a supplied \<open>prefix\<close>, \<open>dateFormat\<close> or \<open>separator\<close>, the empty string
  included, is kept as supplied; so an instance built with an empty \<open>timeZone\<close> asks the
  clock for UTC.
\<close>

theorem C10_constructor_timeZone_truthiness:
  "constructor (config\<lparr>config_timeZone := Some ''''\<rparr>) =
     constructor (config\<lparr>config_timeZone := None\<rparr>) \<and>
   timeZone (constructor (config\<lparr>config_timeZone := Some ''''\<rparr>)) = ''UTC'' \<and>
   prefix (constructor (config\<lparr>config_prefix := Some p\<rparr>)) = p \<and>
   dateFormat (constructor (config\<lparr>config_dateFormat := Some f\<rparr>)) = f \<and>
   separator (constructor (config\<lparr>config_separator := Some s\<rparr>)) = s \<and>
   prefix (constructor (config\<lparr>config_prefix := Some ''''\<rparr>)) = '''' \<and>
   dateFormat (constructor (config\<lparr>config_dateFormat := Some ''''\<rparr>)) = '''' \<and>
   separator (constructor (config\<lparr>config_separator := Some ''''\<rparr>)) = '''' \<and>
   getDateKey now (constructor (config\<lparr>config_timeZone := Some ''''\<rparr>)) =
     now ''UTC'' (dateFormat (constructor config))"
  by (simp add: constructor_def getDateKey_def)


section \<open>Evaluating the overflow of generate\<close>

lemma generate_times_numeral:
  "generate_times now (numeral k) g =
     (let (code, g1) = generate now g; (codes, g2) = generate_times now (pred_numeral k) g1
      in (code # codes, g2))"
  by (simp add: numeral_eq_Suc)

lemmas generate_eval = generate_def generateFromSequence_fits generateFromSequence_overflow
  constructor_def clock_20230101_def padStart_def js_String_eval

lemma generate_times_nine:
  "generate_times clock_20230101 9 (constructor config_width1) =
     ([''202301011'', ''202301012'', ''202301013'', ''202301014'', ''202301015'',
       ''202301016'', ''202301017'', ''202301018'', ''202301019''],
      (constructor config_width1)
        \<lparr>lastGeneratedDate := Some ''20230101'', currentSequence := 9\<rparr>)"
  by (simp add: generate_times_numeral generate_eval config_width1_def)

text \<open>Without overflow the code of \<open>generate\<close> is the one \<open>generateFromSequence\<close> renders from
  the stored sequence and date key.\<close>

lemma generate_reproducible_when_fits:
  assumes gen: "generate now g = (code, g')"
    and fits: "slen (js_String (Some (currentSequence g'))) \<le> sequentialLength g"
  shows "generateFromSequence now g' (Some (currentSequence g')) (lastGeneratedDate g') =
           (code, g')"
proof -
  let ?d = "now (timeZone g) (dateFormat g)"
  let ?w = "if Some ?d = lastGeneratedDate g then Number_int (currentSequence g + 1) else 1"
  let ?g2 = "g\<lparr>currentSequence := ?w, lastGeneratedDate := Some ?d\<rparr>"
  let ?g3 = "?g2\<lparr>sequentialLength := sequentialLength g + 1\<rparr>"
  have w: "currentSequence g' = ?w"
  proof (cases "sequentialLength g < slen (padStart (js_String (Some ?w)) (sequentialLength g))")
    case True
    then have "g' = snd (generateFromSequence now ?g3 (Some 1) (Some ?d))"
      using gen by (simp add: generate_def Let_def)
    then show ?thesis
      using generateFromSequence_fields [of now ?g3 "Some 1" "Some ?d"] by simp
  next
    case False
    then have "g' = ?g2"
      using gen by (simp add: generate_def Let_def)
    then show ?thesis by simp
  qed
  from fits w have nofl: "\<not> sequentialLength g < slen (padStart (js_String (Some ?w)) (sequentialLength g))"
    by (simp add: slen_padStart)
  then have g': "g' = ?g2"
    and code: "code = prefix g @ separator g @ ?d @ separator g @
                      padStart (js_String (Some ?w)) (sequentialLength g)"
    using gen by (simp_all add: generate_def Let_def)
  have "slen (js_String (Some (currentSequence ?g2))) \<le> sequentialLength ?g2"
    using fits w by simp
  then have "generateFromSequence now ?g2 (Some (currentSequence ?g2)) (lastGeneratedDate ?g2) =
             (code, ?g2)"
    by (simp add: generateFromSequence_fits code getDateKey_def)
  then show ?thesis
    by (simp only: g')
qed

text \<open>
  C1.  With one sequence digit and one date key, the first nine calls of \<open>generate\<close> issue
  1 to 9.  The tenth call grows \<open>sequentialLength\<close> to 2 and stores 10 in \<open>currentSequence\<close>,
  but the code it returns renders the literal 1 that the overflow branch passes to
  \<open>generateFromSequence\<close>: its sequence segment reads back as 1, not 10.  The eleventh call
  goes on from the stored 10 and issues 11.
\<close>

theorem C1_generate_overflow_renders_one:
  "generate_times clock_20230101 11 (constructor config_width1) =
     ([''202301011'', ''202301012'', ''202301013'', ''202301014'', ''202301015'',
       ''202301016'', ''202301017'', ''202301018'', ''202301019'', ''2023010101'',
       ''2023010111''],
      (constructor config_width1)
        \<lparr>sequentialLength := 2, lastGeneratedDate := Some ''20230101'',
         currentSequence := 11\<rparr>) \<and>
   snd (generate_times clock_20230101 10 (constructor config_width1)) =
     (constructor config_width1)
        \<lparr>sequentialLength := 2, lastGeneratedDate := Some ''20230101'',
         currentSequence := 10\<rparr> \<and>
   extractSequence clock_20230101
     (snd (generate_times clock_20230101 10 (constructor config_width1))) ''2023010101'' = Some 1"
proof -
  have ten: "snd (generate_times clock_20230101 10 (constructor config_width1)) =
     (constructor config_width1)
        \<lparr>sequentialLength := 2, lastGeneratedDate := Some ''20230101'',
         currentSequence := 10\<rparr>"
    by (simp add: generate_times_numeral generate_eval config_width1_def)
  have eleven: "generate_times clock_20230101 11 (constructor config_width1) =
     ([''202301011'', ''202301012'', ''202301013'', ''202301014'', ''202301015'',
       ''202301016'', ''202301017'', ''202301018'', ''202301019'', ''2023010101'',
       ''2023010111''],
      (constructor config_width1)
        \<lparr>sequentialLength := 2, lastGeneratedDate := Some ''20230101'',
         currentSequence := 11\<rparr>)"
    by (simp add: generate_times_numeral generate_eval config_width1_def)
  have "extractSequence clock_20230101
          ((constructor config_width1)
             \<lparr>sequentialLength := 2, lastGeneratedDate := Some ''20230101'',
              currentSequence := 10\<rparr>) ''2023010101'' = Some 1"
    by code_simp
  with ten eleven show ?thesis
    by (simp only: simp_thms)
qed

text \<open>
  C2.  After the tenth call of that run the code \<open>generate\<close> returned is not the code that
  \<open>generateFromSequence\<close> renders from the stored \<open>currentSequence\<close> and
  \<open>lastGeneratedDate\<close>: the first ends in 01, the second in 10.
\<close>

theorem C2_generate_overflow_not_reproducible:
  "(let g9 = snd (generate_times clock_20230101 9 (constructor config_width1));
        code = fst (generate clock_20230101 g9);
        g' = snd (generate clock_20230101 g9)
    in code = ''2023010101'' \<and> currentSequence g' = 10 \<and>
       lastGeneratedDate g' = Some ''20230101'' \<and>
       fst (generateFromSequence clock_20230101 g' (Some (currentSequence g'))
              (lastGeneratedDate g')) = ''2023010110'')"
proof -
  let ?g9 = "(constructor config_width1)
               \<lparr>lastGeneratedDate := Some ''20230101'', currentSequence := 9\<rparr>"
  let ?g10 = "(constructor config_width1)
                \<lparr>sequentialLength := 2, lastGeneratedDate := Some ''20230101'',
                 currentSequence := 10\<rparr>"
  have nine: "snd (generate_times clock_20230101 9 (constructor config_width1)) = ?g9"
    by (simp only: generate_times_nine snd_conv)
  have tenth: "generate clock_20230101 ?g9 = (''2023010101'', ?g10)"
    by (simp add: generate_eval config_width1_def)
  have fields: "currentSequence ?g10 = 10" "lastGeneratedDate ?g10 = Some ''20230101''"
    by simp_all
  have again: "generateFromSequence clock_20230101 ?g10 (Some 10) (Some ''20230101'') =
                 (''2023010110'', ?g10)"
    by (simp add: generate_eval config_width1_def)
  show ?thesis
    unfolding Let_def nine tenth fst_conv snd_conv fields again
    by simp
qed

text \<open>
  When the working sequence fits in \<open>sequentialLength\<close>, the code \<open>generate\<close> issues
  carries it: previous \<open>currentSequence\<close> plus 1 on an equal date key, 1 otherwise.
\<close>

lemma generate_issues_working_sequence_when_fits:
  assumes w: "w = (if lastGeneratedDate g = Some (getDateKey now g)
                   then Number_int (currentSequence g + 1) else 1)"
    and fits: "slen (js_String (Some w)) \<le> sequentialLength g"
  shows "fst (generate now g) =
           prefix g @ separator g @ getDateKey now g @ separator g @
           padStart (js_String (Some w)) (sequentialLength g)"
proof -
  let ?d = "now (timeZone g) (dateFormat g)"
  let ?w = "if Some ?d = lastGeneratedDate g then Number_int (currentSequence g + 1) else 1"
  have eq: "?w = w"
    by (simp add: w getDateKey_def eq_commute)
  have "\<not> sequentialLength g < slen (padStart (js_String (Some ?w)) (sequentialLength g))"
    using fits unfolding eq slen_padStart by simp
  then have "fst (generate now g) =
               prefix g @ separator g @ ?d @ separator g @
               padStart (js_String (Some ?w)) (sequentialLength g)"
    by (simp add: generate_def Let_def)
  then show ?thesis
    by (simp only: eq getDateKey_def)
qed

text \<open>
  C3.  On the tenth call of the run of C1 the date key of the call equals
  \<open>lastGeneratedDate\<close> and the previous \<open>currentSequence\<close> is 9, so the working sequence
  is 10, and 10 is what \<open>generate\<close> stores.  The code it issues, 2023010101, carries the
  literal 1 of the overflow branch: the issued sequence reads back as 1, not as the previous
  sequence plus 1.
\<close>

theorem C3_generate_overflow_issues_one:
  "(let g9 = snd (generate_times clock_20230101 9 (constructor config_width1));
        code = fst (generate clock_20230101 g9);
        g' = snd (generate clock_20230101 g9)
    in lastGeneratedDate g9 = Some (getDateKey clock_20230101 g9) \<and>
       currentSequence g9 = 9 \<and>
       currentSequence g' = 10 \<and>
       code = ''2023010101'' \<and>
       extractSequence clock_20230101 g' code = Some 1 \<and>
       extractSequence clock_20230101 g' code \<noteq> Some (currentSequence g9 + 1))"
proof -
  let ?g9 = "(constructor config_width1)
               \<lparr>lastGeneratedDate := Some ''20230101'', currentSequence := 9\<rparr>"
  let ?g10 = "(constructor config_width1)
                \<lparr>sequentialLength := 2, lastGeneratedDate := Some ''20230101'',
                 currentSequence := 10\<rparr>"
  have nine: "snd (generate_times clock_20230101 9 (constructor config_width1)) = ?g9"
    by (simp only: generate_times_nine snd_conv)
  have tenth: "generate clock_20230101 ?g9 = (''2023010101'', ?g10)"
    by (simp add: generate_eval config_width1_def)
  have key: "lastGeneratedDate ?g9 = Some (getDateKey clock_20230101 ?g9)"
    by (simp add: getDateKey_def clock_20230101_def)
  have fields: "currentSequence ?g9 = 9" "currentSequence ?g10 = 10"
    by simp_all
  have reread: "extractSequence clock_20230101 ?g10 ''2023010101'' = Some 1"
    by code_simp
  show ?thesis
    unfolding Let_def nine tenth fst_conv snd_conv fields reread
    using key by simp
qed

theorem C7_increment_fails_iff_invalid_witness:
  "\<not> validate clock_20230101 (constructor config_INV_dash) ''INVALID'' \<and>
   fst (increment clock_20230101 (constructor config_INV_dash) ''INVALID'') =
     Inl (Error ''Invalid code format provided to increment'') \<and>
   parse clock_20230101 (constructor config_INV_dash) ''INVALID'' =
     Inl (Error ''Invalid code format provided to parse'') \<and>
   step clock_20230101 (Increment ''INVALID'') (constructor config_INV_dash) =
     constructor config_INV_dash \<and>
   step clock_20230101 (Parse ''INVALID'') (constructor config_INV_dash) =
     constructor config_INV_dash"
proof -
  have invalid: "\<not> validate clock_20230101 (constructor config_INV_dash) ''INVALID''"
    by code_simp
  with C7_increment_fails_iff_invalid
         [of clock_20230101 "constructor config_INV_dash" "''INVALID''"]
  show ?thesis
    by blast
qed

section \<open>lastIndexOf finds the last occurrence\<close>

lemma substring_from_drop: "substring_from s a = drop (nat a) s"
  by (simp add: substring_from_def substring_def clamp_index_def Let_def)

lemma lastIndexOf_from_cases:
  "(lastIndexOf_from s t n = - 1 \<and> (\<forall>k\<le>n. \<not> occurs_at s t k)) \<or>
   (\<exists>k\<le>n. lastIndexOf_from s t n = int k \<and> occurs_at s t k \<and>
           (\<forall>j. k < j \<and> j \<le> n \<longrightarrow> \<not> occurs_at s t j))"
proof (induction n)
  case 0
  show ?case by (cases "occurs_at s t 0") simp_all
next
  case (Suc n)
  show ?case
  proof (cases "occurs_at s t (Suc n)")
    case True
    then show ?thesis by auto
  next
    case False
    from Suc.IH show ?thesis
    proof (elim disjE conjE exE)
      assume "lastIndexOf_from s t n = - 1" "\<forall>k\<le>n. \<not> occurs_at s t k"
      with False show ?thesis by (auto simp: le_Suc_eq)
    next
      fix k
      assume k: "k \<le> n" "lastIndexOf_from s t n = int k" "occurs_at s t k"
        "\<forall>j. k < j \<and> j \<le> n \<longrightarrow> \<not> occurs_at s t j"
      with False have "\<forall>j. k < j \<and> j \<le> Suc n \<longrightarrow> \<not> occurs_at s t j"
        by (auto simp: le_Suc_eq)
      with k False show ?thesis
        by (intro disjI2 exI [of _ k]) simp
    qed
  qed
qed

lemma lastIndexOf_cases:
  "(lastIndexOf s t = - 1 \<and> (\<forall>k. \<not> occurs_at s t k)) \<or>
   (\<exists>k. lastIndexOf s t = int k \<and> occurs_at s t k \<and> (\<forall>j>k. \<not> occurs_at s t j))"
proof (cases "length s < length t")
  case True
  then show ?thesis by (simp add: lastIndexOf_def occurs_at_def)
next
  case False
  let ?n = "length s - length t"
  have bound: "k \<le> ?n" if "occurs_at s t k" for k
    using that False by (auto simp add: occurs_at_def)
  from lastIndexOf_from_cases [of s t ?n] show ?thesis
  proof (elim disjE conjE exE)
    assume "lastIndexOf_from s t ?n = - 1" "\<forall>k\<le>?n. \<not> occurs_at s t k"
    with False bound show ?thesis
      by (auto simp: lastIndexOf_def)
  next
    fix k
    assume k: "lastIndexOf_from s t ?n = int k" "occurs_at s t k"
      "\<forall>j. k < j \<and> j \<le> ?n \<longrightarrow> \<not> occurs_at s t j"
    then have "\<forall>j>k. \<not> occurs_at s t j"
      using bound by blast
    with k False show ?thesis
      by (auto simp: lastIndexOf_def)
  qed
qed

lemma lastIndexOf_last:
  assumes "occurs_at s t k" and "\<forall>j>k. \<not> occurs_at s t j"
  shows "lastIndexOf s t = int k"
proof -
  from lastIndexOf_cases [of s t] assms(1)
  obtain k' where k': "lastIndexOf s t = int k'" "occurs_at s t k'" "\<forall>j>k'. \<not> occurs_at s t j"
    by blast
  have "\<not> k < k'" using assms(2) k'(2) by blast
  moreover have "\<not> k' < k" using k'(3) assms(1) by blast
  ultimately show ?thesis using k'(1) by simp
qed

lemma lastIndexOf_absent: "lastIndexOf s t = - 1 \<longleftrightarrow> (\<forall>k. \<not> occurs_at s t k)"
  using lastIndexOf_cases [of s t] by auto

text \<open>
  C6 (as the code has it).  \<open>validate\<close> accepts a code exactly when it starts with the
  prefix, has at least the length of prefix, two separators, the date pattern and one more
  character, and: with an empty separator, the suffix after the date segment of pattern length
  is one or more digits; with a separator, the separator occurs in the code and the suffix
  after its last occurrence is one or more digits, wherever that occurrence lies.
\<close>

theorem C6_validate_last_separator:
  "validate now g code \<longleftrightarrow>
     startsWith code (prefix g) \<and>
     slen (prefix g) + 2 * slen (separator g) + getDateFormatLength now g + 1 \<le> slen code \<and>
     (if separator g = []
      then test_digits (drop (length (prefix g) + length (getDateKey now g)) code)
      else (\<exists>k. occurs_at code (separator g) k \<and>
                (\<forall>j>k. \<not> occurs_at code (separator g) j) \<and>
                test_digits (drop (k + length (separator g)) code)))"
proof (cases "separator g = []")
  case True
  then show ?thesis
    by (auto simp add: validate_def Let_def substring_from_drop getDateFormatLength_def
        getDateKey_def nat_add_distrib)
next
  case False
  let ?sep = "separator g"
  have "(lastIndexOf code ?sep \<noteq> - 1 \<and>
         test_digits (substring_from code (lastIndexOf code ?sep + slen ?sep))) \<longleftrightarrow>
        (\<exists>k. occurs_at code ?sep k \<and> (\<forall>j>k. \<not> occurs_at code ?sep j) \<and>
             test_digits (drop (k + length ?sep) code))" (is "?L \<longleftrightarrow> ?R")
  proof
    assume l: ?L
    with lastIndexOf_cases [of code ?sep]
    obtain k where k: "lastIndexOf code ?sep = int k" "occurs_at code ?sep k"
      "\<forall>j>k. \<not> occurs_at code ?sep j"
      by blast
    from l have "test_digits (drop (k + length ?sep) code)"
      by (simp add: k(1) substring_from_drop nat_add_distrib)
    with k show ?R by blast
  next
    assume ?R
    then obtain k where k: "occurs_at code ?sep k" "\<forall>j>k. \<not> occurs_at code ?sep j"
      "test_digits (drop (k + length ?sep) code)"
      by blast
    then have "lastIndexOf code ?sep = int k"
      by (simp add: lastIndexOf_last)
    with k(3) show ?L
      by (simp add: substring_from_drop nat_add_distrib)
  qed
  with False show ?thesis
    by (auto simp add: validate_def Let_def)
qed

theorem C6_validate_last_separator_witness:
  "validate clock_20230101 (constructor config_INV_dash) ''INV-20230101-0001'' \<and>
   (\<exists>k. occurs_at ''INV-20230101-0001'' ''-'' k \<and>
        (\<forall>j>k. \<not> occurs_at ''INV-20230101-0001'' ''-'' j) \<and>
        test_digits (drop (k + 1) ''INV-20230101-0001''))"
proof -
  have v: "validate clock_20230101 (constructor config_INV_dash) ''INV-20230101-0001''"
    by code_simp
  have sep: "separator (constructor config_INV_dash) = ''-''"
    by (simp add: constructor_def config_INV_dash_def)
  from v C6_validate_last_separator
         [of clock_20230101 "constructor config_INV_dash" "''INV-20230101-0001''"]
  show ?thesis
    by (simp add: sep)
qed

text \<open>
  C6 (as the specification words it) fails where the separator is configured and missing
  from the code, and where its only occurrence is the one after the prefix: \<open>validate\<close>
  rejects both codes, the guarded rule with the pattern-length fallback accepts them.
\<close>

theorem C6_validate_guard_counterexample:
  "\<not> validate clock_20230101 (constructor config_INV_dash) ''INV202301010001'' \<and>
   spec_validate clock_20230101 (constructor config_INV_dash) ''INV202301010001'' \<and>
   \<not> validate clock_20230101 (constructor config_INV_dash) ''INV-x02301010001'' \<and>
   spec_validate clock_20230101 (constructor config_INV_dash) ''INV-x02301010001''"
  by code_simp


section \<open>Digits: String, padStart and parseInt\<close>

lemma isDigit_digit_char: "d < 10 \<Longrightarrow> isDigit (digit_char d)"
  by (simp add: isDigit_def digit_char_def)

lemma digit_val_digit_char: "d < 10 \<Longrightarrow> digit_val (digit_char d) = d"
  by (simp add: digit_val_def digit_char_def)

lemma isDigit_zero: "isDigit (CHR ''0'')"
  by (simp add: isDigit_def)

lemma digit_val_zero: "digit_val (CHR ''0'') = 0"
  by (simp add: digit_val_def)

lemma isDigit_not_sign_or_space:
  "isDigit c \<Longrightarrow> c \<noteq> CHR ''-'' \<and> c \<noteq> CHR ''+'' \<and> \<not> isWhiteSpace c"
  by (auto simp add: isDigit_def isWhiteSpace_def)

lemma test_digits_parseInt:
  assumes "test_digits s"
  shows "parseInt s = Number_value (int (digits_value s))"
proof -
  from assms obtain c r where s: "s = c # r" and c: "isDigit c" and r: "list_all isDigit r"
    by (cases s) (auto simp add: test_digits_def)
  from c have nc: "c \<noteq> CHR ''-''" "c \<noteq> CHR ''+''" "\<not> isWhiteSpace c"
    using isDigit_not_sign_or_space by blast+
  have tw: "takeWhile isDigit r = r"
    using r by (simp add: list_all_iff)
  show ?thesis
    by (simp add: parseInt_def s nc c tw)
qed

lemma validate_extractSequence:
  assumes "validate now g code"
  shows "\<exists>v\<ge>0. extractSequence now g code = Number_value v"
proof (cases "separator g = []")
  case True
  with assms have "test_digits (substring_from code
                     (slen (prefix g) + slen (separator g) + getDateFormatLength now g +
                      slen (separator g)))"
    by (simp add: validate_def Let_def split: if_splits)
  from test_digits_parseInt [OF this] True
  have "extractSequence now g code =
          Number_value (int (digits_value (substring_from code
            (slen (prefix g) + slen (separator g) + getDateFormatLength now g +
             slen (separator g)))))"
    by (simp add: extractSequence_def Let_def)
  then show ?thesis
    using of_nat_0_le_iff by blast
next
  case False
  with assms have "lastIndexOf code (separator g) \<noteq> - 1"
    and "test_digits (substring_from code (lastIndexOf code (separator g) + slen (separator g)))"
    by (simp_all add: validate_def Let_def split: if_splits)
  from this(1) test_digits_parseInt [OF this(2)] False
  have "extractSequence now g code =
          Number_value (int (digits_value (substring_from code
            (lastIndexOf code (separator g) + slen (separator g)))))"
    by (simp add: extractSequence_def Let_def)
  then show ?thesis
    using of_nat_0_le_iff by blast
qed

section \<open>increment on a code wider than the configured width\<close>

lemma increment_same_date:
  assumes "validate now g code" and "extractDate now g code = getDateKey now g"
  shows "increment now g code =
           (let g1 = (if lastSeqLength now g code > sequentialLength g
                      then g\<lparr>sequentialLength := lastSeqLength now g code\<rparr> else g);
                r = generateFromSequence now g1 (add_one (extractSequence now g code))
                      (Some (getDateKey now g))
            in (Inr (fst r), snd r))"
  using assms by (simp add: increment_def Let_def split_beta)

text \<open>
  For a code that \<open>validate\<close> accepts, whose date segment is the date key of this instant
  and whose sequence segment is wider than \<open>sequentialLength\<close>: \<open>increment\<close> leaves
  \<open>sequentialLength\<close> at least at the embedded width; and when the embedded sequence plus 1
  is a safe integer that still fits the embedded width, \<open>sequentialLength\<close> becomes exactly
  the embedded width and the code returned is prefix, separator, date key, separator and that
  next sequence padded to the embedded width.
\<close>

lemma increment_adopts_embedded_width:
  assumes "validate now g code"
    and "extractDate now g code = getDateKey now g"
    and "sequentialLength g < lastSeqLength now g code"
  shows "lastSeqLength now g code \<le> sequentialLength (snd (increment now g code)) \<and>
         (\<forall>n. extractSequence now g code = Some n \<and> isSafeInteger (n + 1) \<and>
               slen (js_String (Some (n + 1))) \<le> lastSeqLength now g code \<longrightarrow>
               increment now g code =
                 (Inr (prefix g @ separator g @ getDateKey now g @ separator g @
                       padStart (js_String (Some (n + 1))) (lastSeqLength now g code)),
                  g\<lparr>sequentialLength := lastSeqLength now g code\<rparr>))"
proof -
  let ?L = "lastSeqLength now g code"
  let ?g1 = "g\<lparr>sequentialLength := ?L\<rparr>"
  let ?next = "add_one (extractSequence now g code)"
  have inc: "increment now g code =
             (Inr (fst (generateFromSequence now ?g1 ?next (Some (getDateKey now g)))),
              snd (generateFromSequence now ?g1 ?next (Some (getDateKey now g))))"
    using assms by (simp add: increment_same_date Let_def)
  have "sequentialLength ?g1 \<le>
        sequentialLength (snd (generateFromSequence now ?g1 ?next (Some (getDateKey now g))))"
    using generateFromSequence_fields by blast
  then have width: "?L \<le> sequentialLength (snd (increment now g code))"
    by (simp add: inc)
  have exact: "increment now g code =
                 (Inr (prefix g @ separator g @ getDateKey now g @ separator g @
                       padStart (js_String (Some (n + 1))) ?L), ?g1)"
    if n: "extractSequence now g code = Some n"
      and safe: "isSafeInteger (n + 1)"
      and fits: "slen (js_String (Some (n + 1))) \<le> ?L" for n
  proof -
    have next_n: "?next = Some (n + 1)"
      using safe by (simp add: add_one_def n Number_value_def)
    have "slen (js_String (Some (n + 1))) \<le> sequentialLength ?g1"
      using fits by simp
    then have "generateFromSequence now ?g1 (Some (n + 1)) (Some (getDateKey now g)) =
               (prefix g @ separator g @ getDateKey now g @ separator g @
                padStart (js_String (Some (n + 1))) ?L, ?g1)"
      by (simp add: generateFromSequence_fits getDateKey_def)
    then show ?thesis
      by (simp add: inc next_n)
  qed
  from width exact show ?thesis
    by blast
qed

text \<open>
  The instance of the test suite: prefix INV, separator -, four digits configured; the code
  INV-20230101-00001 on 2023-01-01 gives INV-20230101-00002 and five digits.
\<close>

lemma INV_dash_fields:
  "prefix (constructor config_INV_dash) = ''INV''"
  "separator (constructor config_INV_dash) = ''-''"
  "sequentialLength (constructor config_INV_dash) = 4"
  "getDateKey clock_20230101 (constructor config_INV_dash) = ''20230101''"
  by (simp_all add: constructor_def config_INV_dash_def getDateKey_def clock_20230101_def)

lemma increment_INV_00001:
  "increment clock_20230101 (constructor config_INV_dash) ''INV-20230101-00001'' =
     (Inr ''INV-20230101-00002'', (constructor config_INV_dash)\<lparr>sequentialLength := 5\<rparr>)"
proof -
  let ?g = "constructor config_INV_dash"
  let ?code = "''INV-20230101-00001''"
  have v: "validate clock_20230101 ?g ?code"
    by code_simp
  have d: "extractDate clock_20230101 ?g ?code = getDateKey clock_20230101 ?g"
    by code_simp
  have L: "lastSeqLength clock_20230101 ?g ?code = 5"
    by code_simp
  have w: "sequentialLength ?g < lastSeqLength clock_20230101 ?g ?code"
    by (simp add: L INV_dash_fields)
  have last: "lastIndexOf ?code ''-'' = 12"
    by code_simp
  have one: "parseInt ''00001'' = Some 1"
    by (simp add: parseInt_def isWhiteSpace_def isDigit_def digits_value_def digit_val_def
        safe_integer_eval)
  have n: "extractSequence clock_20230101 ?g ?code = Some 1"
    by (simp add: extractSequence_def INV_dash_fields last substring_from_drop one)
  have safe: "isSafeInteger (1 + 1)"
    by (simp add: safe_integer_eval)
  have two: "js_String (Some 2) = ''2''"
    by (simp add: js_String_eval)
  have fits: "slen (js_String (Some (1 + 1))) \<le> lastSeqLength clock_20230101 ?g ?code"
    by (simp add: L two)
  from increment_adopts_embedded_width [OF v d w] n safe fits
  have "increment clock_20230101 ?g ?code =
          (Inr (prefix ?g @ separator ?g @ getDateKey clock_20230101 ?g @ separator ?g @
                padStart (js_String (Some (1 + 1)))
                  (lastSeqLength clock_20230101 ?g ?code)),
           ?g\<lparr>sequentialLength := lastSeqLength clock_20230101 ?g ?code\<rparr>)"
    by blast
  then show ?thesis
    by (simp add: L two INV_dash_fields padStart_def numeral_eq_Suc)
qed

text \<open>
  C5.  With prefix INV, separator - and four digits configured, on 2023-01-01:
  \<open>validate\<close> accepts INV-20230101-99999, its date segment is the date key of the instant
  and its sequence segment has five digits, one more than configured.  \<open>increment\<close> adopts
  width 5 and computes the next sequence 100000, which overflows it; the overflow branch of
  \<open>generateFromSequence\<close> grows the width to 6 and renders the literal 1.  The code
  returned, INV-20230101-000001, reads back as sequence 1: it is not the next code.
\<close>

theorem C5_increment_nines_renders_one:
  "validate clock_20230101 (constructor config_INV_dash) ''INV-20230101-99999'' \<and>
   extractDate clock_20230101 (constructor config_INV_dash) ''INV-20230101-99999'' =
     getDateKey clock_20230101 (constructor config_INV_dash) \<and>
   lastSeqLength clock_20230101 (constructor config_INV_dash) ''INV-20230101-99999'' = 5 \<and>
   sequentialLength (constructor config_INV_dash) = 4 \<and>
   extractSequence clock_20230101 (constructor config_INV_dash) ''INV-20230101-99999'' =
     Some 99999 \<and>
   increment clock_20230101 (constructor config_INV_dash) ''INV-20230101-99999'' =
     (Inr ''INV-20230101-000001'', (constructor config_INV_dash)\<lparr>sequentialLength := 6\<rparr>) \<and>
   extractSequence clock_20230101 ((constructor config_INV_dash)\<lparr>sequentialLength := 6\<rparr>)
     ''INV-20230101-000001'' = Some 1"
proof -
  let ?g = "constructor config_INV_dash"
  let ?code = "''INV-20230101-99999''"
  have v: "validate clock_20230101 ?g ?code"
    by code_simp
  have d: "extractDate clock_20230101 ?g ?code = getDateKey clock_20230101 ?g"
    by code_simp
  have L: "lastSeqLength clock_20230101 ?g ?code = 5"
    by code_simp
  have last: "lastIndexOf ?code ''-'' = 12"
    by code_simp
  have nines: "parseInt ''99999'' = Some 99999"
    by (simp add: parseInt_def isWhiteSpace_def isDigit_def digits_value_def digit_val_def
        safe_integer_eval)
  have n: "extractSequence clock_20230101 ?g ?code = Some 99999"
    by (simp add: extractSequence_def INV_dash_fields last substring_from_drop nines)
  have next_n: "add_one (Some 99999) = Some 100000"
    by (simp add: add_one_def safe_integer_eval)
  have next_string: "js_String (Some 100000) = ''100000''"
    by (simp add: js_String_eval)
  let ?g5 = "?g\<lparr>sequentialLength := 5\<rparr>"
  let ?g6 = "?g\<lparr>sequentialLength := 6\<rparr>"
  have over: "sequentialLength ?g5 < slen (js_String (Some 100000))"
    by (simp add: next_string)
  have fits: "slen (js_String (Some 1)) \<le> sequentialLength ?g6"
    by (simp add: js_String_1)
  have g6: "?g5\<lparr>sequentialLength := sequentialLength ?g5 + 1\<rparr> = ?g6"
    by simp
  have "generateFromSequence clock_20230101 ?g5 (Some 100000) (Some ''20230101'') =
        generateFromSequence clock_20230101 ?g6 (Some 1) (Some ''20230101'')"
    by (simp only: generateFromSequence_overflow [OF over] g6) simp
  also have "\<dots> = (prefix ?g6 @ separator ?g6 @ ''20230101'' @ separator ?g6 @
                      padStart (js_String (Some 1)) (sequentialLength ?g6), ?g6)"
    by (simp only: generateFromSequence_fits [OF fits]) simp
  also have "\<dots> = (''INV-20230101-000001'', ?g6)"
    by (simp add: INV_dash_fields js_String_1 padStart_def numeral_eq_Suc)
  finally have "generateFromSequence clock_20230101 ?g5 (Some 100000) (Some ''20230101'') =
                  (''INV-20230101-000001'', ?g6)" .
  then have inc: "increment clock_20230101 ?g ?code =
          (Inr ''INV-20230101-000001'', ?g\<lparr>sequentialLength := 6\<rparr>)"
    by (simp add: increment_same_date [OF v d] L n next_n INV_dash_fields)
  have last': "lastIndexOf ''INV-20230101-000001'' ''-'' = 12"
    by code_simp
  have one: "parseInt ''000001'' = Some 1"
    by (simp add: parseInt_def isWhiteSpace_def isDigit_def digits_value_def digit_val_def
        safe_integer_eval)
  have reread: "extractSequence clock_20230101 ?g6 ''INV-20230101-000001'' = Some 1"
    by (simp add: extractSequence_def INV_dash_fields last' substring_from_drop one)
  from v d L n inc reread show ?thesis
    by (simp add: INV_dash_fields)
qed

section \<open>Rendering a sequence and reading it back\<close>

lemma digits_value_snoc: "digits_value (xs @ [c]) = 10 * digits_value xs + digit_val c"
  by (simp add: digits_value_def)

lemma nat_to_string_digits: "list_all isDigit (nat_to_string m)"
proof (induction m rule: nat_to_string.induct)
  case (1 n)
  show ?case
  proof (cases "n < 10")
    case True
    then show ?thesis
      by (subst nat_to_string.simps) (simp add: isDigit_digit_char)
  next
    case False
    with 1 show ?thesis
      by (subst nat_to_string.simps) (simp add: isDigit_digit_char)
  qed
qed

lemma digits_value_nat_to_string: "digits_value (nat_to_string m) = m"
proof (induction m rule: nat_to_string.induct)
  case (1 n)
  show ?case
  proof (cases "n < 10")
    case True
    then show ?thesis
      by (subst nat_to_string.simps) (simp add: digits_value_def digit_val_digit_char)
  next
    case False
    with 1 show ?thesis
      by (subst nat_to_string.simps) (simp add: digits_value_snoc digit_val_digit_char)
  qed
qed

lemma digits_value_zeros: "digits_value (replicate k (CHR ''0'') @ xs) = digits_value xs"
proof -
  have "foldl (\<lambda>acc c. 10 * acc + digit_val c) 0 (replicate k (CHR ''0'')) = 0"
    by (induction k) (simp_all add: digit_val_zero)
  then show ?thesis
    by (simp add: digits_value_def)
qed

lemma padStart_digits:
  assumes "0 \<le> n" and "n \<le> MAX_SAFE_INTEGER"
  shows "test_digits (padStart (js_String (Some n)) w)"
    and "digits_value (padStart (js_String (Some n)) w) = nat n"
proof -
  have s: "js_String (Some n) = nat_to_string (nat n)"
    using assms by (simp add: js_String_def isSafeInteger_def)
  have zeros: "list_all isDigit (replicate k (CHR ''0''))" for k
    by (induction k) (simp_all add: isDigit_zero)
  show "test_digits (padStart (js_String (Some n)) w)"
    by (simp add: s padStart_def test_digits_def nat_to_string_digits nat_to_string_nonempty
        zeros)
  show "digits_value (padStart (js_String (Some n)) w) = nat n"
    by (simp add: s padStart_def digits_value_zeros digits_value_nat_to_string)
qed

lemma parseInt_padStart:
  assumes "0 \<le> n" and "n \<le> MAX_SAFE_INTEGER"
  shows "parseInt (padStart (js_String (Some n)) w) = Some n"
  using padStart_digits [OF assms, of w] assms
  by (simp add: test_digits_parseInt Number_value_def isSafeInteger_def)

text \<open>
  A separator that is not made of digits only cannot occur again at a later position that
  runs into the digits after it.
\<close>

lemma overlap_all_digits:
  assumes i: "0 < i" and fit: "i \<le> length Z"
    and occ: "take (length S) (drop i (S @ Z)) = S"
    and Z: "list_all isDigit Z"
  shows "list_all isDigit S"
proof -
  have nth: "S ! m = (S @ Z) ! (i + m)" if "m < length S" for m
  proof -
    have "S ! m = take (length S) (drop i (S @ Z)) ! m"
      by (simp only: occ)
    also have "\<dots> = drop i (S @ Z) ! m"
      using that by (rule nth_take)
    also have "\<dots> = (S @ Z) ! (i + m)"
      by (rule nth_drop) (use fit in simp)
    finally show ?thesis .
  qed
  have digit: "isDigit (S ! m)" if "m < length S" for m
    using that
  proof (induction "length S - m" arbitrary: m rule: less_induct)
    case less
    show ?case
    proof (cases "i + m < length S")
      case True
      have "length S - (i + m) < length S - m"
        using i less.prems by simp
      then have "isDigit (S ! (i + m))"
        using True by (rule less.hyps)
      then show ?thesis
        using nth [OF less.prems] True by (simp add: nth_append)
    next
      case False
      then have "S ! m = Z ! (i + m - length S)"
        using nth [OF less.prems] by (simp add: nth_append)
      moreover have "i + m - length S < length Z"
        using False fit less.prems by simp
      ultimately show ?thesis
        using Z by (simp add: list_all_length)
    qed
  qed
  then show ?thesis
    by (simp add: list_all_length)
qed

lemma lastIndexOf_composed:
  assumes S: "\<not> list_all isDigit S" and Z: "list_all isDigit Z"
  shows "lastIndexOf (P @ S @ K @ S @ Z) S = int (length P + length S + length K)"
proof (rule lastIndexOf_last)
  let ?p = "length P + length S + length K"
  show "occurs_at (P @ S @ K @ S @ Z) S ?p"
    by (simp add: occurs_at_def)
  show "\<forall>j>?p. \<not> occurs_at (P @ S @ K @ S @ Z) S j"
  proof (intro allI impI notI)
    fix j
    assume j: "?p < j" and occ: "occurs_at (P @ S @ K @ S @ Z) S j"
    define i where "i = j - ?p"
    have i: "0 < i" and ji: "j = ?p + i"
      using j by (simp_all add: i_def)
    have "drop j (P @ S @ K @ S @ Z) = drop i (S @ Z)"
      by (simp add: ji)
    with occ have "take (length S) (drop i (S @ Z)) = S" and "i \<le> length Z"
      by (simp_all add: occurs_at_def ji)
    with i Z have "list_all isDigit S"
      by (intro overlap_all_digits [of i Z S]) simp_all
    with S show False by simp
  qed
qed

lemma substring_middle:
  "substring (A @ K @ B) (slen A) (slen A + slen K) = K"
  by (simp add: substring_def clamp_index_def Let_def)

text \<open>
  C4 (as the code has it).  For a safe integer \<open>n \<ge> 0\<close> whose decimal digits fit in
  \<open>sequentialLength\<close>, and a separator that is not a non-empty string of digits only,
  \<open>generateFromSequence(n)\<close> leaves the instance as it is, \<open>extractSequence\<close> of its code
  is \<open>n\<close> and \<open>extractDate\<close> of its code is the date key of this instant.
\<close>

theorem C4_round_trip_when_fits:
  assumes n0: "0 \<le> n"
    and safe: "n \<le> MAX_SAFE_INTEGER"
    and fits: "slen (js_String (Some n)) \<le> sequentialLength g"
    and sep: "\<not> test_digits (separator g)"
  shows "snd (generateFromSequence now g (Some n) None) = g \<and>
         extractSequence now g (fst (generateFromSequence now g (Some n) None)) = Some n \<and>
         extractDate now g (fst (generateFromSequence now g (Some n) None)) = getDateKey now g"
proof -
  let ?P = "prefix g" and ?S = "separator g" and ?K = "getDateKey now g"
  let ?Z = "padStart (js_String (Some n)) (sequentialLength g)"
  let ?code = "?P @ ?S @ ?K @ ?S @ ?Z"
  have gen: "generateFromSequence now g (Some n) None = (?code, g)"
    by (simp add: generateFromSequence_fits [OF fits])
  have Z: "list_all isDigit ?Z"
    using padStart_digits(1) [OF n0 safe] by (simp add: test_digits_def)
  have parse: "parseInt ?Z = Some n"
    by (rule parseInt_padStart [OF n0 safe])
  have len: "getDateFormatLength now g = slen ?K"
    by (simp add: getDateFormatLength_def getDateKey_def)
  have seq: "extractSequence now g ?code = Some n"
  proof (cases "?S = []")
    case True
    then show ?thesis
      by (simp add: extractSequence_def Let_def len substring_from_drop nat_add_distrib parse)
  next
    case False
    with sep have "\<not> list_all isDigit ?S"
      by (simp add: test_digits_def)
    then have "lastIndexOf ?code ?S = int (length ?P + length ?S + length ?K)"
      using Z by (rule lastIndexOf_composed)
    with False show ?thesis
      by (simp add: extractSequence_def Let_def substring_from_drop nat_add_distrib parse)
  qed
  have date: "extractDate now g ?code = ?K"
  proof (cases "?S = []")
    case True
    then show ?thesis
      using substring_middle [of ?P ?K ?Z]
      by (simp add: extractDate_def Let_def len)
  next
    case False
    with sep have "\<not> list_all isDigit ?S"
      by (simp add: test_digits_def)
    then have last: "lastIndexOf ?code ?S = int (length ?P + length ?S + length ?K)"
      using Z by (rule lastIndexOf_composed)
    have mid: "substring ?code (slen ?P + slen ?S) (slen ?P + slen ?S + slen ?K) = ?K"
      using substring_middle [of "?P @ ?S" ?K "?S @ ?Z"] by simp
    have "extractDate now g ?code =
            (if slen ?P + slen ?S < int (length ?P + length ?S + length ?K)
             then substring ?code (slen ?P + slen ?S) (int (length ?P + length ?S + length ?K))
             else substring ?code (slen ?P + slen ?S) (slen ?P + slen ?S + slen ?K))"
      using False by (simp add: extractDate_def Let_def len last)
    also have "\<dots> = ?K"
      by (simp only: of_nat_add mid if_cancel)
    finally show ?thesis .
  qed
  from gen seq date show ?thesis
    by simp
qed

theorem C4_round_trip_when_fits_witness:
  "fst (generateFromSequence clock_20230101 (constructor config_INV_dash) (Some 1) None) =
     ''INV-20230101-0001'' \<and>
   snd (generateFromSequence clock_20230101 (constructor config_INV_dash) (Some 1) None) =
     constructor config_INV_dash \<and>
   extractSequence clock_20230101 (constructor config_INV_dash) ''INV-20230101-0001'' = Some 1 \<and>
   extractDate clock_20230101 (constructor config_INV_dash) ''INV-20230101-0001'' = ''20230101''"
proof -
  let ?g = "constructor config_INV_dash"
  have n0: "(0::int) \<le> 1"
    by simp
  have safe: "(1::int) \<le> MAX_SAFE_INTEGER"
    by (simp add: MAX_SAFE_INTEGER_def)
  have fits: "slen (js_String (Some 1)) \<le> sequentialLength ?g"
    by (simp add: js_String_1 INV_dash_fields)
  have sep: "\<not> test_digits (separator ?g)"
    by (simp add: INV_dash_fields test_digits_def isDigit_def)
  have code: "fst (generateFromSequence clock_20230101 ?g (Some 1) None) = ''INV-20230101-0001''"
    by (simp add: generateFromSequence_fits [OF fits] INV_dash_fields js_String_1 padStart_def
        numeral_eq_Suc)
  from C4_round_trip_when_fits [OF n0 safe fits sep, of clock_20230101] code show ?thesis
    by (simp add: INV_dash_fields)
qed

text \<open>
  C4 (as the specification words it) fails for a separator made of a digit: with prefix INV,
  separator 0 and four digits, the code of sequence 10 is INV02023010100010; its last
  separator is its last character, so \<open>extractSequence\<close> reads an empty segment and answers
  \<open>NaN\<close>, and \<open>extractDate\<close> answers 202301010001.
\<close>

theorem C4_round_trip_digit_separator_counterexample:
  "extractSequence clock_20230101 (constructor config_INV_zero)
     (fst (generateFromSequence clock_20230101 (constructor config_INV_zero) (Some 10) None))
     \<noteq> Some 10 \<and>
   extractDate clock_20230101 (constructor config_INV_zero)
     (fst (generateFromSequence clock_20230101 (constructor config_INV_zero) (Some 10) None))
     \<noteq> getDateKey clock_20230101 (constructor config_INV_zero) \<and>
   generateFromSequence clock_20230101 (constructor config_INV_zero) (Some 10) None =
     (''INV02023010100010'', constructor config_INV_zero) \<and>
   extractSequence clock_20230101 (constructor config_INV_zero) ''INV02023010100010'' = None \<and>
   extractDate clock_20230101 (constructor config_INV_zero) ''INV02023010100010'' =
     ''202301010001'' \<and>
   getDateKey clock_20230101 (constructor config_INV_zero) = ''20230101''"
proof -
  let ?g = "constructor config_INV_zero"
  have fields: "prefix ?g = ''INV''" "separator ?g = ''0''" "sequentialLength ?g = 4"
    "getDateKey clock_20230101 ?g = ''20230101''"
    by (simp_all add: constructor_def config_INV_zero_def getDateKey_def clock_20230101_def)
  have ten: "js_String (Some 10) = ''10''"
    by (simp add: js_String_eval)
  have fits: "slen (js_String (Some 10)) \<le> sequentialLength ?g"
    by (simp add: ten fields)
  have gen: "generateFromSequence clock_20230101 ?g (Some 10) None =
               (''INV02023010100010'', ?g)"
    by (simp add: generateFromSequence_fits [OF fits] fields ten padStart_def numeral_eq_Suc)
  have seq: "extractSequence clock_20230101 ?g ''INV02023010100010'' = None"
    by code_simp
  have date: "extractDate clock_20230101 ?g ''INV02023010100010'' = ''202301010001''"
    by code_simp
  from gen seq date fields(4) show ?thesis
    by simp
qed


end
